theory Spec2Isabelle
  imports Complex_Main "HOL-Library.Char_ord" "HOL-Library.List_Lexorder"
begin

section \<open>JavaScript primitives used by \<open>src/cli.js\<close>\<close>

text \<open>
  Directory names, file names and SQL texts are JavaScript strings; they are modelled as
  \<^typ>\<open>string\<close>, one \<^typ>\<open>char\<close> per code unit (code units below 256). Strings are
  ordered as JavaScript orders them: lexicographically by code unit, a proper prefix first
  (\<open>Char_ord\<close>, \<open>List_Lexorder\<close>). JavaScript numbers that index arrays or hold the cursor
  are \<^typ>\<open>int\<close>.
\<close>

text \<open>\<open>Array.prototype.slice(start, end)\<close>: a negative bound counts from the end of the
  array, every bound is clamped to the array, and an empty range gives the empty array.\<close>

definition slice :: "'a list \<Rightarrow> int \<Rightarrow> int \<Rightarrow> 'a list" where
  "slice xs start fin =
     (let len = int (length xs);
          k = (if start < 0 then max (len + start) 0 else min start len);
          final = (if fin < 0 then max (len + fin) 0 else min fin len)
      in take (nat (final - k)) (drop (nat k) xs))"

text \<open>\<open>slice(start)\<close>: with \<open>end\<close> left out the range runs to the end of the array.\<close>

definition slice_from :: "'a list \<Rightarrow> int \<Rightarrow> 'a list" where
  "slice_from xs start = slice xs start (int (length xs))"

text \<open>\<open>xs[i]\<close>: reading past the end of an array gives \<open>undefined\<close>, here \<open>None\<close>.\<close>

definition at_index :: "'a list \<Rightarrow> nat \<Rightarrow> 'a option" where
  "at_index xs i = (if i < length xs then Some (xs ! i) else None)"

text \<open>\<open>Array.prototype.findIndex\<close>: the index of the first element satisfying the
  predicate, \<open>-1\<close> when there is none.\<close>

fun findIndex :: "('a \<Rightarrow> bool) \<Rightarrow> 'a list \<Rightarrow> int" where
  "findIndex P [] = - 1"
| "findIndex P (x # xs) =
     (if P x then 0 else (let i = findIndex P xs in if i < 0 then - 1 else i + 1))"

text \<open>\<open>String.prototype.startsWith\<close>.\<close>

definition startsWith :: "string \<Rightarrow> string \<Rightarrow> bool" where
  "startsWith s p = (take (length p) s = p)"

section \<open>The subset of applicable migrations\<close>

text \<open>\<open>args.cmd\<close>, one of the three commands \<open>parse-argv\<close> accepts.\<close>

datatype cmd = Create | Commit | Rollback

text \<open>Lines 111-113: the migration directories are the entries of the listing whose name
  does not start with a dot, in the order of the listing.\<close>

definition dirNames_of :: "string list \<Rightarrow> string list" where
  "dirNames_of entries = filter (\<lambda>subDir. \<not> startsWith subDir ''.'') entries"

text \<open>Lines 126-128.\<close>

definition subset_of :: "cmd \<Rightarrow> string list \<Rightarrow> int \<Rightarrow> string list" where
  "subset_of c dirNames cursor =
     (if c = Commit then slice_from dirNames (cursor + 1)
      else slice_from (rev (slice_from dirNames 0)) (int (length dirNames) - (cursor + 1)))"

text \<open>Lines 154-156: the new cursor searches the whole of \<open>dirNames\<close> for the first name
  equal to \<open>subset[migrateTo]\<close> (the subset is \<open>subs\<close> below); for a rollback one is taken
  off. A comparison \<open>d === undefined\<close> is false for every name \<open>d\<close>.\<close>

definition newCursor :: "cmd \<Rightarrow> string list \<Rightarrow> string list \<Rightarrow> nat \<Rightarrow> int" where
  "newCursor c dirNames subs migrateTo =
     (if c = Commit then findIndex (\<lambda>d. Some d = at_index subs migrateTo) dirNames
      else findIndex (\<lambda>d. Some d = at_index subs migrateTo) dirNames - 1)"

text \<open>A path is the list of its components, and \<open>path.resolve(dir, name)\<close> appends a
  component: directory entries are single components.\<close>

type_synonym path = "string list"

definition resolve :: "path \<Rightarrow> string \<Rightarrow> path" where
  "resolve dir name = dir @ [name]"

text \<open>Lines 159-161.\<close>

definition migrationDirPaths :: "path \<Rightarrow> string list \<Rightarrow> nat \<Rightarrow> path list" where
  "migrationDirPaths pathToMigrations subs migrateTo =
     map (\<lambda>p. resolve pathToMigrations p) (slice subs 0 (int migrateTo + 1))"

section \<open>Reading the scripts\<close>

datatype error = FsError string | TypeError | DbError string | Cancelled

text \<open>The file system, as the two calls of the source see it: \<open>readdir\<close> lists a
  directory (\<open>fs.readdirSync\<close>, \<open>fs.readdir\<close>) in the order the platform gives, and
  \<open>readFile\<close> reads a file as text. Either can fail.\<close>

record filesystem =
  readdir :: "path \<Rightarrow> error + string list"
  readFile :: "path \<Rightarrow> error + string"

text \<open>\<open>Promise.all\<close>: the results in the order of the array, or a rejection when one of the
  promises rejects (the first in array order here; which of several rejections is reported
  is not used below).\<close>

fun Promise_all :: "(error + 'a) list \<Rightarrow> error + 'a list" where
  "Promise_all [] = Inr []"
| "Promise_all (Inl e # rs) = Inl e"
| "Promise_all (Inr x # rs) = (case Promise_all rs of Inl e \<Rightarrow> Inl e | Inr xs \<Rightarrow> Inr (x # xs))"

text \<open>Lines 169-170: the script of a unit is the first entry of its directory listing for a
  commit and the second for any other command. \<open>path.resolve\<close> throws a \<open>TypeError\<close> when
  the entry is \<open>undefined\<close>.\<close>

definition migration_file :: "cmd \<Rightarrow> path \<Rightarrow> string list \<Rightarrow> error + path" where
  "migration_file c dir files =
     (case (if c = Commit then at_index files 0 else at_index files 1) of
        None \<Rightarrow> Inl TypeError
      | Some file \<Rightarrow> Inr (resolve dir file))"

text \<open>Line 174: \<open>sql.reduce((sql, content) => sql.concat(content, "\n"), "")\<close>.\<close>

definition concat_sql :: "string list \<Rightarrow> string" where
  "concat_sql contents = foldl (\<lambda>sql content. sql @ content @ ''\<newline>'') [] contents"

text \<open>Lines 165-175, the body of the \<open>try\<close>: \<open>Inl\<close> is the exception the \<open>catch\<close> of line
  176 receives.\<close>

definition read_sql :: "filesystem \<Rightarrow> cmd \<Rightarrow> path list \<Rightarrow> error + string" where
  "read_sql fs c paths =
     (case Promise_all (map (readdir fs) paths) of
        Inl e \<Rightarrow> Inl e
      | Inr fileArrays \<Rightarrow>
          (case Promise_all (map2 (migration_file c) paths fileArrays) of
             Inl e \<Rightarrow> Inl e
           | Inr migrations \<Rightarrow>
               (case Promise_all (map (readFile fs) migrations) of
                  Inl e \<Rightarrow> Inl e
                | Inr contents \<Rightarrow> Inr (concat_sql contents))))"

text \<open>Lines 70-71: the two files \<open>create\<close> writes into a new migration directory.\<close>

definition create_files :: "string \<Rightarrow> string list" where
  "create_files migrationName = [migrationName @ ''_commit.sql'', migrationName @ ''_rollback.sql'']"

section \<open>The comparison \<open>subset < 1\<close>\<close>

text \<open>
  Line 131 compares the array \<open>subset\<close> with the number \<open>1\<close>. JavaScript turns the array into
  a primitive first: \<open>valueOf\<close> returns the array itself, so \<open>toString\<close> is called, which is
  \<open>join(",")\<close>. One side being a number, the string is then converted with \<open>ToNumber\<close>, and
  the numbers are compared; a comparison with \<open>NaN\<close> is false.
\<close>

definition join :: "string list \<Rightarrow> string" where
  "join xs = (case xs of [] \<Rightarrow> [] | x # rest \<Rightarrow> foldl (\<lambda>acc y. acc @ '','' @ y) x rest)"

text \<open>The result of \<open>ToNumber\<close> on a string. \<open>Finite q\<close> carries the mathematical value \<open>q\<close> of
  the literal; the JavaScript number is the double nearest to it (a tie goes to the even
  significand).\<close>

datatype number = NaN | Finite rat | PosInfinity | NegInfinity

text \<open>\<open>StrWhiteSpaceChar\<close>, as far as it lies below 256: tab, line feed, vertical tab, form
  feed, carriage return, space and no-break space.\<close>

definition isStrWhiteSpaceChar :: "char \<Rightarrow> bool" where
  "isStrWhiteSpaceChar c =
     (c \<in> set [CHR 0x09, CHR 0x0A, CHR 0x0B, CHR 0x0C, CHR 0x0D, CHR 0x20, CHR 0xA0])"

definition trim :: "string \<Rightarrow> string" where
  "trim s = rev (dropWhile isStrWhiteSpaceChar (rev (dropWhile isStrWhiteSpaceChar s)))"

definition isDecimalDigit :: "char \<Rightarrow> bool" where
  "isDecimalDigit c = (c \<in> set ''0123456789'')"

text \<open>The value of a digit of a hexadecimal, decimal, octal or binary literal.\<close>

definition digit_value :: "char \<Rightarrow> nat option" where
  "digit_value c =
     (if c \<in> set ''0123456789'' then Some (of_char c - 48)
      else if c \<in> set ''abcdef'' then Some (of_char c - 87)
      else if c \<in> set ''ABCDEF'' then Some (of_char c - 55)
      else None)"

fun digitsMV :: "nat \<Rightarrow> string \<Rightarrow> nat \<Rightarrow> nat option" where
  "digitsMV b [] acc = Some acc"
| "digitsMV b (c # cs) acc =
     (case digit_value c of
        None \<Rightarrow> None
      | Some d \<Rightarrow> if d < b then digitsMV b cs (acc * b + d) else None)"

text \<open>A non-empty run of digits of radix \<open>b\<close>, and nothing else.\<close>

definition Digits :: "nat \<Rightarrow> string \<Rightarrow> nat option" where
  "Digits b ds = (if ds = [] then None else digitsMV b ds 0)"

text \<open>\<open>NonDecimalIntegerLiteral\<close>: \<open>0x\<close>, \<open>0o\<close>, \<open>0b\<close> (either case) and digits; no sign.\<close>

definition NonDecimalIntegerLiteral :: "string \<Rightarrow> nat option" where
  "NonDecimalIntegerLiteral s =
     (case s of
        c0 # c1 # ds \<Rightarrow>
          if c0 \<noteq> CHR ''0'' then None
          else if c1 = CHR ''x'' \<or> c1 = CHR ''X'' then Digits 16 ds
          else if c1 = CHR ''o'' \<or> c1 = CHR ''O'' then Digits 8 ds
          else if c1 = CHR ''b'' \<or> c1 = CHR ''B'' then Digits 2 ds
          else None
      | _ \<Rightarrow> None)"

text \<open>\<open>ExponentPart\<close>, optional: what follows the mantissa is nothing, or \<open>e\<close> or \<open>E\<close>, an
  optional sign and decimal digits.\<close>

definition ExponentPart :: "string \<Rightarrow> int option" where
  "ExponentPart s =
     (case s of
        [] \<Rightarrow> Some 0
      | c # r \<Rightarrow>
          if c = CHR ''e'' \<or> c = CHR ''E'' then
            (case r of
               [] \<Rightarrow> None
             | d # r' \<Rightarrow>
                 if d = CHR ''+'' then map_option int (Digits 10 r')
                 else if d = CHR ''-'' then map_option (\<lambda>n. - int n) (Digits 10 r')
                 else map_option int (Digits 10 r))
          else None)"

definition decimalMV :: "string \<Rightarrow> nat" where
  "decimalMV ds = foldl (\<lambda>acc c. acc * 10 + (of_char c - 48)) 0 ds"

definition scale :: "nat \<Rightarrow> int \<Rightarrow> rat" where
  "scale m e = (if 0 \<le> e then of_nat m * 10 ^ nat e else of_nat m / 10 ^ nat (- e))"

text \<open>\<open>StrUnsignedDecimalLiteral\<close>: \<open>Infinity\<close>, or digits with an optional fraction and
  exponent; there is a digit before or after the point.\<close>

definition StrUnsignedDecimalLiteral :: "string \<Rightarrow> number" where
  "StrUnsignedDecimalLiteral s =
     (if s = ''Infinity'' then PosInfinity
      else
        let ip = takeWhile isDecimalDigit s;
            r1 = dropWhile isDecimalDigit s;
            dot = (case r1 of [] \<Rightarrow> False | c # _ \<Rightarrow> c = CHR ''.'');
            fp = (if dot then takeWhile isDecimalDigit (tl r1) else []);
            r2 = (if dot then dropWhile isDecimalDigit (tl r1) else r1)
        in if ip = [] \<and> fp = [] then NaN
           else (case ExponentPart r2 of
                   None \<Rightarrow> NaN
                 | Some e \<Rightarrow> Finite (scale (decimalMV (ip @ fp)) (e - int (length fp)))))"

definition negate :: "number \<Rightarrow> number" where
  "negate n = (case n of NaN \<Rightarrow> NaN | Finite q \<Rightarrow> Finite (- q)
                 | PosInfinity \<Rightarrow> NegInfinity | NegInfinity \<Rightarrow> PosInfinity)"

definition StrDecimalLiteral :: "string \<Rightarrow> number" where
  "StrDecimalLiteral s =
     (case s of
        [] \<Rightarrow> NaN
      | c # r \<Rightarrow>
          if c = CHR ''+'' then StrUnsignedDecimalLiteral r
          else if c = CHR ''-'' then negate (StrUnsignedDecimalLiteral r)
          else StrUnsignedDecimalLiteral s)"

text \<open>\<open>StringToNumber\<close>: white space is trimmed, the empty string is \<open>0\<close>, and a string that
  is not a \<open>StringNumericLiteral\<close> is \<open>NaN\<close>.\<close>

definition StringToNumber :: "string \<Rightarrow> number" where
  "StringToNumber s =
     (let t = trim s
      in if t = [] then Finite 0
         else (case NonDecimalIntegerLiteral t of
                 Some n \<Rightarrow> Finite (of_nat n)
               | None \<Rightarrow> StrDecimalLiteral t))"

text \<open>\<open>n < 1\<close> for the number of a string. The double nearest to a value \<open>q\<close> is below \<open>1\<close>
  exactly when \<open>q\<close> is below \<open>1 - 2^-54\<close>, the midpoint between \<open>1\<close> and the double before it,
  which itself rounds to \<open>1\<close>. (The standard lets an implementation cut a literal of more
  than twenty significant digits at the twentieth before rounding; the value here is the
  exact one.)\<close>

definition lessThan_1 :: "number \<Rightarrow> bool" where
  "lessThan_1 n =
     (case n of NaN \<Rightarrow> False | Finite q \<Rightarrow> q < 1 - 1 / 2 ^ 54
        | PosInfinity \<Rightarrow> False | NegInfinity \<Rightarrow> True)"

text \<open>Line 131, \<open>subset < 1\<close>.\<close>

definition array_lessThan_1 :: "string list \<Rightarrow> bool" where
  "array_lessThan_1 xs = lessThan_1 (StringToNumber (join xs))"

text \<open>The characters that occur in the strings \<open>StringToNumber\<close> reads as a number: white
  space, digits, and the letters and signs of the literals.\<close>

definition numeric_char :: "char \<Rightarrow> bool" where
  "numeric_char c = (isStrWhiteSpaceChar c \<or> c \<in> set ''0123456789abcdefABCDEFxXoO.+-Infity'')"

section \<open>The database\<close>

text \<open>
  The PostgreSQL server is outside the repository; this is the behaviour of it that the
  program meets. A database holds the table \<open>_migrations\<close> (\<open>None\<close> before it is created;
  otherwise the \<open>cursor\<close> column of its rows) and everything else, \<open>schema\<close>, which is left
  abstract. A session has the committed database and, inside a transaction, the
  uncommitted database the transaction works on. \<open>COMMIT\<close> makes the uncommitted database
  the committed one, \<open>ROLLBACK\<close> and the end of the session discard it.
\<close>

record 's database =
  migrations :: "int list option"
  schema :: 's

record 's session =
  persisted :: "'s database"
  txn :: "'s database option"

text \<open>The queries the program sends: \<open>SELECT 1\<close> (line 95), the creation of the table and of
  its first row (lines 103-106), \<open>SELECT cursor FROM _migrations\<close> (line 120), and the five of
  the transaction (lines 186-192), of which \<open>SCRIPT\<close> carries the concatenated text of the
  migration files and \<open>UPDATE_CURSOR\<close> the parameter of the \<open>UPDATE\<close>.\<close>

datatype statement =
  SELECT_1 | ENSURE | SELECT_CURSOR | BEGIN | SCRIPT string | UPDATE_CURSOR int | COMMIT | ROLLBACK

text \<open>
  What the server does with a migration text is a parameter, \<open>script\<close>. Line 187 sends the
  text as it is, so the text can hold transaction control of its own: \<open>script\<close> takes the
  session the text meets and gives the session it leaves, committed database and open
  transaction alike, and the error of the statement that failed, if one did.
  \<open>fault srv q\<close> is a connection that is lost while \<open>q\<close> runs; \<open>connect\<close> is the outcome of
  \<open>pool.connect()\<close>.
\<close>

record 's server =
  script :: "string \<Rightarrow> 's session \<Rightarrow> error option \<times> 's session"
  fault :: "statement \<Rightarrow> error option"
  connect :: "error option"

definition current :: "'s session \<Rightarrow> 's database" where
  "current s = (case txn s of None \<Rightarrow> persisted s | Some d \<Rightarrow> d)"

definition store :: "'s session \<Rightarrow> 's database \<Rightarrow> 's session" where
  "store s d = (case txn s of None \<Rightarrow> s\<lparr>persisted := d\<rparr> | Some _ \<Rightarrow> s\<lparr>txn := Some d\<rparr>)"

text \<open>Lines 103-106: \<open>CREATE TABLE IF NOT EXISTS\<close>, then a row with cursor \<open>-1\<close> unless the
  table has a row.\<close>

definition ensure :: "'s database \<Rightarrow> 's database" where
  "ensure d =
     (case migrations d of
        None \<Rightarrow> d\<lparr>migrations := Some [- 1]\<rparr>
      | Some [] \<Rightarrow> d\<lparr>migrations := Some [- 1]\<rparr>
      | Some (r # rows) \<Rightarrow> d)"

text \<open>What comes back from a query: rows (the cursors, for \<open>SELECT_CURSOR\<close>) and the session
  after it; an error of the server, with the session the failed query leaves; or the loss
  of the connection.\<close>

datatype 's reply = Rows "int list" "'s session" | Rejected error "'s session" | Lost error

text \<open>\<open>UPDATE _migrations SET cursor = $1\<close> has no \<open>WHERE\<close>: it sets every row. The server
  takes \<open>BEGIN\<close> and \<open>ROLLBACK\<close> in every state of the session (outside a transaction
  \<open>ROLLBACK\<close> changes nothing), and \<open>COMMIT\<close> as well: a \<open>COMMIT\<close> that the server rejects
  (a deferred constraint) is left out, no statement below being about it.\<close>

definition query :: "'s server \<Rightarrow> statement \<Rightarrow> 's session \<Rightarrow> 's reply" where
  "query srv st s =
     (case fault srv st of
        Some e \<Rightarrow> Lost e
      | None \<Rightarrow>
          (case st of
             SELECT_1 \<Rightarrow> Rows [1] s
           | ENSURE \<Rightarrow> Rows [] (store s (ensure (current s)))
           | SELECT_CURSOR \<Rightarrow>
               (case migrations (current s) of
                  None \<Rightarrow> Rejected (DbError ''relation _migrations does not exist'') s
                | Some rows \<Rightarrow> Rows rows s)
           | BEGIN \<Rightarrow> Rows [] (s\<lparr>txn := Some (current s)\<rparr>)
           | SCRIPT sql \<Rightarrow>
               (case script srv sql s of
                  (Some e, s') \<Rightarrow> Rejected e s'
                | (None, s') \<Rightarrow> Rows [] s')
           | UPDATE_CURSOR n \<Rightarrow>
               (case migrations (current s) of
                  None \<Rightarrow> Rejected (DbError ''relation _migrations does not exist'') s
                | Some rows \<Rightarrow>
                    Rows [] (store s ((current s)\<lparr>migrations := Some (map (\<lambda>r. n) rows)\<rparr>)))
           | COMMIT \<Rightarrow> Rows [] \<lparr>persisted = current s, txn = None\<rparr>
           | ROLLBACK \<Rightarrow> Rows [] (s\<lparr>txn := None\<rparr>)))"

text \<open>\<open>pool.query\<close> (lines 95, 103, 120): the promise rejects on an error of the server and
  on a lost connection alike.\<close>

definition pool_query :: "'s server \<Rightarrow> statement \<Rightarrow> 's session \<Rightarrow> error + (int list \<times> 's session)" where
  "pool_query srv st s =
     (case query srv st s of
        Rows rows s' \<Rightarrow> Inr (rows, s')
      | Rejected e s' \<Rightarrow> Inl e
      | Lost e \<Rightarrow> Inl e)"

section \<open>\<open>commitOrRollback\<close>\<close>

text \<open>
  How the process ends: the report of the program and the exit status. \<open>Unhandled\<close> is a
  promise rejected outside every \<open>try\<close> (lines 103, 120, 182), which ends a current Node with
  status \<open>1\<close>. \<open>ConnectionLost\<close> is the connection of the transaction client lost while a query
  runs: the client raises an \<open>error\<close> event, nothing listens for it, and Node prints the
  error and ends the process with status \<open>1\<close> before the \<open>catch\<close> block runs. \<open>Released\<close> is the
  \<open>process.exit()\<close> of the \<open>finally\<close> block reached with an exception pending, which gives
  status \<open>0\<close>.
\<close>

datatype exit =
    CouldNotConnect error
  | ReadingDirectoryFailed error
  | CannotPerform cmd string
  | NothingSelected error
  | ErrorReadingSql error
  | MigrationSuccessful int
  | MigrationUnsuccessful error
  | Released
  | Unhandled error
  | ConnectionLost error


text \<open>The outcome of a run: how it ended, the committed database it leaves (the session ends
  with the process), the queries sent on the transaction client, in order, and the errors
  written to the standard error stream, in order, by \<open>console.error\<close> or by Node.\<close>

record 's outcome =
  ended :: exit
  db_after :: "'s database"
  issued :: "statement list"
  printed :: "error list"

text \<open>How the queries of the \<open>try\<close> block stop: all have returned, one has thrown an error of
  the server, or the connection is lost.\<close>

datatype stop = Returned | Thrown error | Died error

fun queries ::
  "'s server \<Rightarrow> statement list \<Rightarrow> 's session \<Rightarrow> statement list
     \<Rightarrow> stop \<times> 's session \<times> statement list" where
  "queries srv [] s sent = (Returned, s, sent)"
| "queries srv (q # qs) s sent =
     (case query srv q s of
        Rows rows s' \<Rightarrow> queries srv qs s' (sent @ [q])
      | Rejected e s' \<Rightarrow> (Thrown e, s', sent @ [q])
      | Lost e \<Rightarrow> (Died e, s, sent @ [q]))"

text \<open>
  Lines 183-199, on the client of \<open>debugClient\<close> (lines 245-254), whose listener prints every
  error message of the server as it arrives. When a query of the \<open>try\<close> block throws, the
  \<open>catch\<close> sends \<open>ROLLBACK\<close>, prints the error and exits with status \<open>1\<close>; were \<open>ROLLBACK\<close> to
  throw as well, control would pass to the \<open>finally\<close> block, which exits.
\<close>

definition transaction :: "'s server \<Rightarrow> string \<Rightarrow> int \<Rightarrow> 's session \<Rightarrow> 's outcome" where
  "transaction srv sql new_cursor s =
     (case queries srv [BEGIN, SCRIPT sql, UPDATE_CURSOR new_cursor, COMMIT] s [] of
        (Returned, s', sent) \<Rightarrow>
          \<lparr>ended = MigrationSuccessful new_cursor, db_after = persisted s', issued = sent,
           printed = []\<rparr>
      | (Died e, s', sent) \<Rightarrow>
          \<lparr>ended = ConnectionLost e, db_after = persisted s', issued = sent, printed = [e]\<rparr>
      | (Thrown e, s', sent) \<Rightarrow>
          (case query srv ROLLBACK s' of
             Rows rows s'' \<Rightarrow>
               \<lparr>ended = MigrationUnsuccessful e, db_after = persisted s'',
                issued = sent @ [ROLLBACK], printed = [e, e]\<rparr>
           | Rejected e' s'' \<Rightarrow>
               \<lparr>ended = Released, db_after = persisted s'', issued = sent @ [ROLLBACK],
                printed = [e, e']\<rparr>
           | Lost e' \<Rightarrow>
               \<lparr>ended = ConnectionLost e', db_after = persisted s', issued = sent @ [ROLLBACK],
                printed = [e, e']\<rparr>))"

text \<open>Lines 132-134.\<close>

definition reason :: "cmd \<Rightarrow> string" where
  "reason c = (if c = Commit then ''the database is already fully migrated''
               else ''the database is already clean'')"

text \<open>\<open>args\<close>, as far as \<open>commitOrRollback\<close> reads it.\<close>

record args =
  cmd :: cmd
  all :: bool

text \<open>Lines 94-121: the connection test, the table, the directory listing and the cursor
  (\<open>rows && rows[0] ? rows[0].cursor : -1\<close>). \<open>Inl\<close> is a run that ends here.\<close>

definition cursor_of :: "int list \<Rightarrow> int" where
  "cursor_of rows = (case rows of [] \<Rightarrow> - 1 | r # rest \<Rightarrow> r)"

definition prepare ::
  "filesystem \<Rightarrow> 's server \<Rightarrow> path \<Rightarrow> 's session
     \<Rightarrow> 's outcome + (string list \<times> int \<times> 's session)" where
  "prepare fs srv pathToMigrations s =
     (case pool_query srv SELECT_1 s of
        Inl e \<Rightarrow>
          Inl \<lparr>ended = CouldNotConnect e, db_after = persisted s, issued = [], printed = [e]\<rparr>
      | Inr (rows1, s1) \<Rightarrow>
          (case pool_query srv ENSURE s1 of
             Inl e \<Rightarrow>
               Inl \<lparr>ended = Unhandled e, db_after = persisted s1, issued = [], printed = [e]\<rparr>
           | Inr (rows2, s2) \<Rightarrow>
               (case readdir fs pathToMigrations of
                  Inl e \<Rightarrow>
                    Inl \<lparr>ended = ReadingDirectoryFailed e, db_after = persisted s2, issued = [],
                         printed = [e]\<rparr>
                | Inr entries \<Rightarrow>
                    (case pool_query srv SELECT_CURSOR s2 of
                       Inl e \<Rightarrow>
                         Inl \<lparr>ended = Unhandled e, db_after = persisted s2, issued = [],
                              printed = [e]\<rparr>
                     | Inr (rows, s3) \<Rightarrow> Inr (dirNames_of entries, cursor_of rows, s3)))))"

text \<open>Lines 125-199, from the subset on. \<open>spawnSelection\<close> is the selection menu: it gives the
  index the user chose or rejects. The report of line 135 goes to the standard output.\<close>

definition migrate ::
  "args \<Rightarrow> filesystem \<Rightarrow> (string list \<Rightarrow> error + nat) \<Rightarrow> 's server \<Rightarrow> path
     \<Rightarrow> string list \<Rightarrow> int \<Rightarrow> 's session \<Rightarrow> 's outcome" where
  "migrate args fs spawnSelection srv pathToMigrations dirNames cursor s =
     (let subs = subset_of (cmd args) dirNames cursor
      in if array_lessThan_1 subs
         then \<lparr>ended = CannotPerform (cmd args) (reason (cmd args)), db_after = persisted s,
               issued = [], printed = []\<rparr>
         else
           (case (if all args then Inr (length subs - 1) else spawnSelection subs) of
              Inl e \<Rightarrow>
                \<lparr>ended = NothingSelected e, db_after = persisted s, issued = [], printed = [e]\<rparr>
            | Inr migrateTo \<Rightarrow>
                (case read_sql fs (cmd args) (migrationDirPaths pathToMigrations subs migrateTo) of
                   Inl e \<Rightarrow>
                     \<lparr>ended = ErrorReadingSql e, db_after = persisted s, issued = [],
                      printed = [e]\<rparr>
                 | Inr sql \<Rightarrow>
                     (case connect srv of
                        Some e \<Rightarrow>
                          \<lparr>ended = Unhandled e, db_after = persisted s, issued = [],
                           printed = [e]\<rparr>
                      | None \<Rightarrow>
                          transaction srv sql (newCursor (cmd args) dirNames subs migrateTo) s))))"

definition commitOrRollback ::
  "args \<Rightarrow> filesystem \<Rightarrow> (string list \<Rightarrow> error + nat) \<Rightarrow> 's server \<Rightarrow> path
     \<Rightarrow> 's session \<Rightarrow> 's outcome" where
  "commitOrRollback args fs spawnSelection srv pathToMigrations s =
     (case prepare fs srv pathToMigrations s of
        Inl out \<Rightarrow> out
      | Inr (dirNames, cursor, s') \<Rightarrow>
          migrate args fs spawnSelection srv pathToMigrations dirNames cursor s')"

section \<open>A migrations directory and a server to run the program on\<close>

text \<open>A migrations directory with the given entries, each of them a directory holding the
  two files \<open>create\<close> writes, with the texts \<open><name commit>\<close> and \<open><name rollback>\<close>.\<close>

definition migrations_dir :: "string list \<Rightarrow> filesystem" where
  "migrations_dir entries =
     \<lparr>readdir = (\<lambda>p. case p of
          [base] \<Rightarrow> if base = ''postgres_migrations'' then Inr entries else Inl (FsError ''ENOENT'')
        | [base, d] \<Rightarrow>
            if base = ''postgres_migrations'' \<and> d \<in> set entries then Inr (create_files d)
            else Inl (FsError ''ENOENT'')
        | _ \<Rightarrow> Inl (FsError ''ENOENT'')),
      readFile = (\<lambda>p. case p of
          [base, d, f] \<Rightarrow>
            if f = d @ ''_commit.sql'' then Inr (''<'' @ d @ '' commit>'')
            else if f = d @ ''_rollback.sql'' then Inr (''<'' @ d @ '' rollback>'')
            else Inl (FsError ''ENOENT'')
        | _ \<Rightarrow> Inl (FsError ''ENOENT''))\<rparr>"

text \<open>A migration text with transaction control of its own: it creates a table, moves the
  cursor, commits, and then fails.\<close>

definition own_commit :: string where
  "own_commit =
     ''create table a(); update _migrations set cursor = 5; commit; select 1/0;\<newline>''"

text \<open>
  A server whose schema is the list of the texts it has run. It rejects the texts that
  contain a statement it cannot run, here the texts with a \<open>!\<close> in them, and leaves the
  session as it was. Of \<open>own_commit\<close> it commits what comes before the \<open>commit\<close> and leaves
  no transaction open, as PostgreSQL does. Every other text it runs on the database the
  session sees. The queries listed in \<open>lost\<close> lose the connection.
\<close>

definition log_server :: "statement list \<Rightarrow> string list server" where
  "log_server lost =
     \<lparr>script = (\<lambda>sql s.
        if sql = own_commit then
          (Some (DbError ''division by zero''),
           \<lparr>persisted = \<lparr>migrations = map_option (map (\<lambda>r. 5)) (migrations (current s)),
                          schema = schema (current s) @ [''create table a()'']\<rparr>,
            txn = None\<rparr>)
        else if CHR ''!'' \<in> set sql then (Some (DbError ''syntax error''), s)
        else (None, store s ((current s)\<lparr>schema := schema (current s) @ [sql]\<rparr>))),
      fault = (\<lambda>st. if st \<in> set lost then Some (DbError ''connection lost'') else None),
      connect = None\<rparr>"

text \<open>A session on a database whose cursor is \<open>k\<close>, outside a transaction.\<close>

definition session_at :: "int \<Rightarrow> string list session" where
  "session_at k = \<lparr>persisted = \<lparr>migrations = Some [k], schema = []\<rparr>, txn = None\<rparr>"

text \<open>A selection menu on which the user picks offset \<open>i\<close>.\<close>

definition pick :: "nat \<Rightarrow> string list \<Rightarrow> error + nat" where
  "pick i subs = Inr i"

section \<open>Array primitives\<close>

lemma slice_from_nonneg:
  "0 \<le> start \<Longrightarrow> slice_from xs start = drop (nat start) xs"
  by (simp add: slice_from_def slice_def Let_def min_def)

lemma slice_from_0: "slice_from xs 0 = xs"
  by (simp add: slice_from_nonneg)

lemma subset_of_Commit:
  "- 1 \<le> k \<Longrightarrow> subset_of Commit C k = drop (nat (k + 1)) C"
  by (simp add: subset_of_def slice_from_nonneg)

lemma subset_of_Rollback:
  assumes "- 1 \<le> k" "k < int (length C)"
  shows "subset_of Rollback C k = rev (take (nat (k + 1)) C)"
proof -
  have "subset_of Rollback C k = drop (nat (int (length C) - (k + 1))) (rev C)"
    using assms by (simp add: subset_of_def slice_from_nonneg slice_from_0)
  also have "nat (int (length C) - (k + 1)) = length C - nat (k + 1)"
    using assms by simp
  also have "drop (length C - nat (k + 1)) (rev C) = rev (take (nat (k + 1)) C)"
    by (simp add: rev_take)
  finally show ?thesis .
qed

section \<open>Searching the catalog\<close>

lemma findIndex_lower: "- 1 \<le> findIndex P xs"
  by (induction xs) (auto simp: Let_def)

lemma findIndex_upper: "findIndex P xs < int (length xs)"
  by (induction xs) (auto simp: Let_def)

lemma findIndex_first:
  "n < length xs \<Longrightarrow> P (xs ! n) \<Longrightarrow> (\<And>j. j < n \<Longrightarrow> \<not> P (xs ! j)) \<Longrightarrow> findIndex P xs = int n"
proof (induction xs arbitrary: n)
  case Nil
  then show ?case by simp
next
  case (Cons x xs)
  show ?case
  proof (cases n)
    case 0
    with Cons.prems show ?thesis by simp
  next
    case (Suc m)
    have "\<not> P x" using Cons.prems(3)[of 0] Suc by simp
    moreover have "findIndex P xs = int m"
    proof (rule Cons.IH)
      show "m < length xs" using Cons.prems(1) Suc by simp
      show "P (xs ! m)" using Cons.prems(2) Suc by simp
      show "\<not> P (xs ! j)" if "j < m" for j using Cons.prems(3)[of "Suc j"] that Suc by simp
    qed
    ultimately show ?thesis using Suc by (simp add: Let_def)
  qed
qed

lemma findIndex_found:
  "0 \<le> findIndex P xs \<Longrightarrow> P (xs ! nat (findIndex P xs)) \<and> (\<forall>j < nat (findIndex P xs). \<not> P (xs ! j))"
proof (induction xs)
  case Nil
  then show ?case by simp
next
  case (Cons x xs)
  show ?case
  proof (cases "P x")
    case True
    then show ?thesis by simp
  next
    case False
    with Cons.prems have nn: "0 \<le> findIndex P xs"
      by (simp add: Let_def split: if_splits)
    then have eq: "findIndex P (x # xs) = findIndex P xs + 1"
      using False by (simp add: Let_def)
    have n: "nat (findIndex P xs + 1) = Suc (nat (findIndex P xs))" using nn by simp
    show ?thesis
      unfolding eq n using Cons.IH[OF nn] False
      by (auto simp: less_Suc_eq_0_disj)
  qed
qed

lemma findIndex_distinct:
  assumes "distinct xs" "n < length xs"
  shows "findIndex (\<lambda>d. Some d = Some (xs ! n)) xs = int n"
proof (rule findIndex_first[OF assms(2)])
  show "Some (xs ! n) = Some (xs ! n)" by simp
  show "\<not> Some (xs ! j) = Some (xs ! n)" if "j < n" for j
    using that assms by (auto simp: nth_eq_iff_index_eq)
qed

lemma slice_0: "slice xs 0 (int m + 1) = take (Suc m) xs"
  by (simp add: slice_def Let_def min_def nat_add_distrib)

lemma migrationDirPaths_take:
  "migrationDirPaths p subs s = map (resolve p) (take (Suc s) subs)"
  by (simp add: migrationDirPaths_def slice_0)

lemma length_subset_Commit:
  "- 1 \<le> k \<Longrightarrow> length (subset_of Commit C k) = length C - nat (k + 1)"
  by (simp add: subset_of_Commit)

lemma length_subset_Rollback:
  "- 1 \<le> k \<Longrightarrow> k < int (length C) \<Longrightarrow> length (subset_of Rollback C k) = nat (k + 1)"
  by (simp add: subset_of_Rollback)

lemma nth_subset_Commit:
  assumes "- 1 \<le> k" "s < length (subset_of Commit C k)"
  shows "nat (k + 1 + int s) < length C \<and> subset_of Commit C k ! s = C ! nat (k + 1 + int s)"
proof -
  have n: "nat (k + 1 + int s) = nat (k + 1) + s" using assms(1) by (simp add: nat_add_distrib)
  have "s < length C - nat (k + 1)" using assms by (simp add: subset_of_Commit)
  then show ?thesis using assms(1) unfolding n by (simp add: subset_of_Commit)
qed

lemma nth_subset_Rollback:
  assumes "- 1 \<le> k" "k < int (length C)" "s < length (subset_of Rollback C k)"
  shows "nat (k - int s) < length C \<and> 0 \<le> k - int s \<and> subset_of Rollback C k ! s = C ! nat (k - int s)"
proof -
  have s: "s < nat (k + 1)" using assms by (simp add: subset_of_Rollback)
  have len: "length (take (nat (k + 1)) C) = nat (k + 1)" using assms by simp
  have n: "nat (k + 1) - Suc s = nat (k - int s)" using s by linarith
  have "subset_of Rollback C k ! s = take (nat (k + 1)) C ! (nat (k + 1) - Suc s)"
    using assms s by (simp add: subset_of_Rollback rev_nth)
  also have "\<dots> = C ! nat (k - int s)" using s unfolding n by simp
  finally show ?thesis using s assms by simp linarith
qed

lemma newCursor_Commit:
  assumes "distinct C" "- 1 \<le> k" "s < length (subset_of Commit C k)"
  shows "newCursor Commit C (subset_of Commit C k) s = k + 1 + int s"
proof -
  from nth_subset_Commit[OF assms(2,3)]
  have lt: "nat (k + 1 + int s) < length C"
    and eq: "subset_of Commit C k ! s = C ! nat (k + 1 + int s)" by simp_all
  have "newCursor Commit C (subset_of Commit C k) s
      = findIndex (\<lambda>d. Some d = Some (C ! nat (k + 1 + int s))) C"
    using assms(3) by (simp add: newCursor_def at_index_def eq)
  also have "\<dots> = int (nat (k + 1 + int s))" by (rule findIndex_distinct[OF assms(1) lt])
  finally show ?thesis using assms(2) by simp
qed

lemma newCursor_Rollback:
  assumes "distinct C" "- 1 \<le> k" "k < int (length C)" "c \<noteq> Commit"
    "s < length (subset_of c C k)"
  shows "newCursor c C (subset_of c C k) s = k - int s - 1"
proof -
  have sub: "subset_of c C k = subset_of Rollback C k" using assms(4) by (simp add: subset_of_def)
  from nth_subset_Rollback[OF assms(2,3)] assms(5)
  have lt: "nat (k - int s) < length C" and nn: "0 \<le> k - int s"
    and eq: "subset_of Rollback C k ! s = C ! nat (k - int s)" unfolding sub by simp_all
  have "newCursor c C (subset_of c C k) s
      = findIndex (\<lambda>d. Some d = Some (C ! nat (k - int s))) C - 1"
    using assms(4,5) by (simp add: newCursor_def at_index_def eq sub)
  also have "findIndex (\<lambda>d. Some d = Some (C ! nat (k - int s))) C = int (nat (k - int s))"
    by (rule findIndex_distinct[OF assms(1) lt])
  finally show ?thesis using nn by simp
qed

lemma findIndex_exists: "x \<in> set xs \<Longrightarrow> P x \<Longrightarrow> 0 \<le> findIndex P xs"
  by (induction xs) (auto simp: Let_def)

lemma findIndex_least:
  assumes "x \<in> set xs" "P x"
  shows "\<exists>i<length xs. findIndex P xs = int i \<and> P (xs ! i) \<and> (\<forall>j<i. \<not> P (xs ! j))"
proof -
  have nn: "0 \<le> findIndex P xs" by (rule findIndex_exists[of x xs P, OF assms])
  have "nat (findIndex P xs) < length xs" using findIndex_upper[of P xs] nn by linarith
  moreover have "findIndex P xs = int (nat (findIndex P xs))" using nn by simp
  ultimately show ?thesis using findIndex_found[OF nn] by blast
qed

lemma subset_of_set: "- 1 \<le> k \<Longrightarrow> k < int (length C) \<Longrightarrow> set (subset_of c C k) \<subseteq> set C"
proof (cases "c = Commit")
  case True
  assume "- 1 \<le> k"
  then show ?thesis using True by (auto simp: subset_of_Commit dest: in_set_dropD)
next
  case False
  assume "- 1 \<le> k" "k < int (length C)"
  moreover have "subset_of c C k = subset_of Rollback C k" using False by (simp add: subset_of_def)
  ultimately show ?thesis by (auto simp: subset_of_Rollback dest: in_set_takeD)
qed

section \<open>Reading and concatenating the scripts\<close>

lemma Promise_all_map_Inr: "Promise_all (map Inr xs) = Inr xs"
  by (induction xs) simp_all

lemma Promise_all_Inr_D: "Promise_all rs = Inr xs \<Longrightarrow> rs = map Inr xs"
proof (induction rs arbitrary: xs)
  case Nil
  then show ?case by simp
next
  case (Cons r rs)
  show ?case
  proof (cases r)
    case (Inl e)
    with Cons.prems show ?thesis by simp
  next
    case (Inr x)
    with Cons.prems obtain ys where ys: "Promise_all rs = Inr ys" and xs: "xs = x # ys"
      by (auto split: sum.splits)
    from Cons.IH[OF ys] Inr xs show ?thesis by simp
  qed
qed

lemma Promise_all_Inr: "Promise_all rs = Inr xs \<longleftrightarrow> rs = map Inr xs"
  using Promise_all_Inr_D Promise_all_map_Inr by blast

lemma foldl_concat_sql:
  "foldl (\<lambda>sql content. sql @ content @ ''\<newline>'') acc contents
     = acc @ concat (map (\<lambda>t. t @ ''\<newline>'') contents)"
  by (induction contents arbitrary: acc) simp_all

lemma concat_sql_concat: "concat_sql contents = concat (map (\<lambda>t. t @ ''\<newline>'') contents)"
  by (simp add: concat_sql_def foldl_concat_sql)

lemma migration_file_Inr:
  "migration_file c dir files = Inr m \<Longrightarrow>
     \<exists>file. at_index files (if c = Commit then 0 else 1) = Some file \<and> m = resolve dir file"
  by (auto simp: migration_file_def split: option.splits if_splits)

lemma read_sql_scripts:
  assumes "read_sql fs c paths = Inr sql"
  shows "\<exists>contents. length contents = length paths \<and>
           sql = concat (map (\<lambda>t. t @ ''\<newline>'') contents) \<and>
           (\<forall>i<length paths. \<exists>files file.
              readdir fs (paths ! i) = Inr files \<and>
              at_index files (if c = Commit then 0 else 1) = Some file \<and>
              readFile fs (resolve (paths ! i) file) = Inr (contents ! i))"
proof -
  from assms obtain fileArrays migrations contents where
    fa: "Promise_all (map (readdir fs) paths) = Inr fileArrays" and
    mg: "Promise_all (map2 (migration_file c) paths fileArrays) = Inr migrations" and
    ct: "Promise_all (map (readFile fs) migrations) = Inr contents" and
    sql: "sql = concat_sql contents"
    by (auto simp: read_sql_def split: sum.splits)
  from fa have fa': "map (readdir fs) paths = map Inr fileArrays" by (simp add: Promise_all_Inr)
  from mg have mg': "map2 (migration_file c) paths fileArrays = map Inr migrations"
    by (simp add: Promise_all_Inr)
  from ct have ct': "map (readFile fs) migrations = map Inr contents" by (simp add: Promise_all_Inr)
  have l1: "length fileArrays = length paths" using fa' by (metis length_map)
  have l2: "length migrations = length paths" using mg' l1 by (metis length_map length_zip min.idem)
  have l3: "length contents = length paths" using ct' l2 by (metis length_map)
  have each: "\<exists>files file. readdir fs (paths ! i) = Inr files \<and>
              at_index files (if c = Commit then 0 else 1) = Some file \<and>
              readFile fs (resolve (paths ! i) file) = Inr (contents ! i)"
    if i: "i < length paths" for i
  proof -
    have r: "readdir fs (paths ! i) = Inr (fileArrays ! i)"
      using fa' i l1 by (metis nth_map)
    have "map2 (migration_file c) paths fileArrays ! i = Inr (migrations ! i)"
      using mg' i l2 by (metis nth_map)
    then have "migration_file c (paths ! i) (fileArrays ! i) = Inr (migrations ! i)"
      using i l1 by simp
    from migration_file_Inr[OF this] obtain fname where
      f: "at_index (fileArrays ! i) (if c = Commit then 0 else 1) = Some fname"
      and m: "migrations ! i = resolve (paths ! i) fname" by blast
    have "readFile fs (migrations ! i) = Inr (contents ! i)"
      using ct' i l2 l3 by (metis nth_map)
    then show ?thesis using r f m by auto
  qed
  show ?thesis using l3 sql each by (auto simp: concat_sql_concat)
qed



section \<open>The comparison with \<open>1\<close>\<close>

lemma numeric_chars:
  "numeric_char CHR ''+''" "numeric_char CHR ''-''" "numeric_char CHR ''.''"
  "numeric_char CHR ''e''" "numeric_char CHR ''E''" "numeric_char CHR ''0''"
  by (simp_all add: numeric_char_def)

lemma digit_value_numeric: "digit_value c = Some d \<Longrightarrow> numeric_char c"
  by (auto simp: digit_value_def numeric_char_def split: if_splits)

lemma digitsMV_numeric: "digitsMV b ds acc = Some n \<Longrightarrow> c \<in> set ds \<Longrightarrow> numeric_char c"
proof (induction ds arbitrary: acc)
  case Nil
  then show ?case by simp
next
  case (Cons x xs)
  from Cons.prems(1) obtain d where d: "digit_value x = Some d" "d < b"
    and r: "digitsMV b xs (acc * b + d) = Some n"
    by (auto split: option.splits if_splits)
  show ?case
  proof (cases "c = x")
    case True
    then show ?thesis using d(1) by (simp add: digit_value_numeric)
  next
    case False
    then have "c \<in> set xs" using Cons.prems(2) by simp
    then show ?thesis using Cons.IH[OF r] by simp
  qed
qed

lemma Digits_numeric: "Digits b ds = Some n \<Longrightarrow> c \<in> set ds \<Longrightarrow> numeric_char c"
  by (auto simp: Digits_def split: if_splits dest: digitsMV_numeric)

lemma NonDecimal_numeric:
  assumes "NonDecimalIntegerLiteral t = Some n" "c \<in> set t"
  shows "numeric_char c"
proof -
  from assms(1) obtain c0 c1 ds where t: "t = c0 # c1 # ds"
    by (auto simp: NonDecimalIntegerLiteral_def split: list.splits)
  from assms(1) t have c0: "c0 = CHR ''0''" and c1: "c1 \<in> set ''xXoObB''"
    and "\<exists>b. Digits b ds = Some n"
    by (auto simp: NonDecimalIntegerLiteral_def split: if_splits)
  then obtain b where "Digits b ds = Some n" by blast
  then have "c \<in> set ds \<Longrightarrow> numeric_char c" by (rule Digits_numeric)
  moreover have "numeric_char c0" using c0 by (simp add: numeric_chars)
  moreover have "numeric_char c1" using c1 by (auto simp: numeric_char_def)
  ultimately show ?thesis using assms(2) t by auto
qed

lemma ExponentPart_numeric:
  assumes "ExponentPart r = Some e" "c \<in> set r"
  shows "numeric_char c"
proof (cases r)
  case Nil
  then show ?thesis using assms by simp
next
  case r: (Cons x xs)
  have x: "x = CHR ''e'' \<or> x = CHR ''E''"
    using assms(1) r by (simp add: ExponentPart_def split: if_splits)
  then have nx: "numeric_char x" using numeric_chars by blast
  show ?thesis
  proof (cases xs)
    case Nil
    then show ?thesis using assms r x by (auto simp: ExponentPart_def)
  next
    case xs: (Cons y ys)
    have ex: "ExponentPart r =
        (if y = CHR ''+'' then map_option int (Digits 10 ys)
         else if y = CHR ''-'' then map_option (\<lambda>n. - int n) (Digits 10 ys)
         else map_option int (Digits 10 (y # ys)))"
      using x r xs by (auto simp: ExponentPart_def)
    have rest: "c \<in> set xs \<Longrightarrow> numeric_char c"
    proof (cases "y = CHR ''+'' \<or> y = CHR ''-''")
      case True
      then have ny: "numeric_char y" using numeric_chars by blast
      from True assms(1) ex obtain n where "Digits 10 ys = Some n"
        by (auto split: if_splits)
      then have "c \<in> set ys \<Longrightarrow> numeric_char c" by (rule Digits_numeric)
      then show "c \<in> set xs \<Longrightarrow> numeric_char c" using ny xs by auto
    next
      case False
      with assms(1) ex obtain n where "Digits 10 (y # ys) = Some n"
        by (auto split: if_splits)
      then have "c \<in> set (y # ys) \<Longrightarrow> numeric_char c" by (rule Digits_numeric)
      then show "c \<in> set xs \<Longrightarrow> numeric_char c" using xs by simp
    qed
    show ?thesis using assms(2) r nx rest by auto
  qed
qed

lemma isDecimalDigit_numeric: "isDecimalDigit c \<Longrightarrow> numeric_char c"
  by (auto simp: isDecimalDigit_def numeric_char_def)

lemma Unsigned_numeric:
  assumes "StrUnsignedDecimalLiteral s \<noteq> NaN" "c \<in> set s"
  shows "numeric_char c"
proof (cases "s = ''Infinity''")
  case True
  then show ?thesis using assms(2) by (auto simp: numeric_char_def)
next
  case False
  define ip where "ip = takeWhile isDecimalDigit s"
  define r1 where "r1 = dropWhile isDecimalDigit s"
  define dot where "dot = (case r1 of [] \<Rightarrow> False | c # _ \<Rightarrow> c = CHR ''.'')"
  define fp where "fp = (if dot then takeWhile isDecimalDigit (tl r1) else [])"
  define r2 where "r2 = (if dot then dropWhile isDecimalDigit (tl r1) else r1)"
  have s: "s = ip @ r1" by (simp add: ip_def r1_def)
  have r1: "r1 = (if dot then CHR ''.'' # fp @ r2 else r2)"
    by (auto simp: dot_def fp_def r2_def split: list.splits)
  have "\<exists>e. ExponentPart r2 = Some e"
    using assms(1) False
    by (auto simp: StrUnsignedDecimalLiteral_def Let_def ip_def r1_def dot_def fp_def r2_def
             split: if_splits option.splits)
  then have n2: "\<forall>c\<in>set r2. numeric_char c" using ExponentPart_numeric by blast
  have nip: "\<forall>c\<in>set ip. numeric_char c"
    unfolding ip_def by (auto dest: set_takeWhileD isDecimalDigit_numeric)
  have nfp: "\<forall>c\<in>set fp. numeric_char c"
    unfolding fp_def by (auto dest: set_takeWhileD isDecimalDigit_numeric)
  have "numeric_char CHR ''.''" by (rule numeric_chars)
  then have "\<forall>c\<in>set r1. numeric_char c" using r1 n2 nfp by (auto split: if_splits)
  then show ?thesis using assms(2) s nip by auto
qed

lemma negate_NaN: "negate n = NaN \<longleftrightarrow> n = NaN"
  by (cases n) (simp_all add: negate_def)

lemma Decimal_numeric:
  assumes "StrDecimalLiteral s \<noteq> NaN" "c \<in> set s"
  shows "numeric_char c"
proof (cases s)
  case Nil
  then show ?thesis using assms by simp
next
  case (Cons x xs)
  show ?thesis
  proof (cases "x = CHR ''+'' \<or> x = CHR ''-''")
    case True
    then have "StrUnsignedDecimalLiteral xs \<noteq> NaN"
      using assms(1) Cons by (auto simp: StrDecimalLiteral_def negate_NaN split: if_splits)
    then have "\<forall>c\<in>set xs. numeric_char c" using Unsigned_numeric by blast
    moreover have "numeric_char x" using True numeric_chars by blast
    ultimately show ?thesis using assms(2) Cons by auto
  next
    case False
    then have "StrUnsignedDecimalLiteral s \<noteq> NaN"
      using assms(1) Cons by (auto simp: StrDecimalLiteral_def)
    then show ?thesis using assms(2) Unsigned_numeric by blast
  qed
qed

lemma trim_keeps: "c \<in> set s \<Longrightarrow> \<not> isStrWhiteSpaceChar c \<Longrightarrow> c \<in> set (trim s)"
proof -
  have keep: "c \<in> set xs \<Longrightarrow> \<not> P c \<Longrightarrow> c \<in> set (dropWhile P xs)" for xs :: string and P
    by (induction xs) auto
  assume "c \<in> set s" "\<not> isStrWhiteSpaceChar c"
  then show ?thesis by (simp add: trim_def keep)
qed

lemma StringToNumber_numeric:
  assumes "StringToNumber s \<noteq> NaN" "c \<in> set s"
  shows "numeric_char c"
proof (cases "isStrWhiteSpaceChar c")
  case True
  then show ?thesis by (simp add: numeric_char_def)
next
  case False
  then have c: "c \<in> set (trim s)" using assms(2) by (simp add: trim_keeps)
  then have ne: "trim s \<noteq> []" by auto
  show ?thesis
  proof (cases "NonDecimalIntegerLiteral (trim s)")
    case None
    then have "StrDecimalLiteral (trim s) \<noteq> NaN"
      using assms(1) ne by (simp add: StringToNumber_def Let_def)
    then show ?thesis using c Decimal_numeric by blast
  next
    case (Some n)
    then show ?thesis using c NonDecimal_numeric by blast
  qed
qed

lemma join_comma: "CHR '','' \<in> set (join (x # y # ys))"
proof -
  have "CHR '','' \<in> set acc \<Longrightarrow> CHR '','' \<in> set (foldl (\<lambda>acc y. acc @ '','' @ y) acc zs)"
    for acc zs
    by (induction zs arbitrary: acc) simp_all
  then show ?thesis by (simp add: join_def)
qed

lemma no_op_test:
  "array_lessThan_1 subs \<longleftrightarrow> subs = [] \<or> (\<exists>d. subs = [d] \<and> lessThan_1 (StringToNumber d))"
proof (cases subs)
  case Nil
  then show ?thesis
    by (simp add: array_lessThan_1_def join_def StringToNumber_def trim_def lessThan_1_def)
next
  case (Cons x xs)
  show ?thesis
  proof (cases xs)
    case Nil
    then show ?thesis using Cons by (simp add: array_lessThan_1_def join_def)
  next
    case (Cons y ys)
    have "\<not> numeric_char CHR '',''" by (simp add: numeric_char_def isStrWhiteSpaceChar_def)
    then have "StringToNumber (join (x # y # ys)) = NaN"
      using StringToNumber_numeric join_comma by blast
    then show ?thesis using \<open>subs = x # xs\<close> Cons
      by (simp add: array_lessThan_1_def lessThan_1_def)
  qed
qed

lemma subset_empty_iff:
  assumes "- 1 \<le> k" "k < int (length C)"
  shows "(subset_of Commit C k = [] \<longleftrightarrow> k = int (length C) - 1) \<and>
         (subset_of Rollback C k = [] \<longleftrightarrow> k = - 1)"
proof -
  have "(subset_of Commit C k = []) = (length C \<le> nat (k + 1))"
    using assms by (simp add: subset_of_Commit)
  moreover have "(subset_of Rollback C k = []) = (nat (k + 1) = 0 \<or> C = [])"
    using assms by (simp add: subset_of_Rollback)
  ultimately show ?thesis using assms by auto
qed


section \<open>Running the program\<close>

lemmas ToNumber_defs = array_lessThan_1_def join_def StringToNumber_def trim_def isStrWhiteSpaceChar_def
   NonDecimalIntegerLiteral_def StrDecimalLiteral_def StrUnsignedDecimalLiteral_def isDecimalDigit_def
   ExponentPart_def decimalMV_def scale_def lessThan_1_def Digits_def digit_value_def negate_def

lemmas run_defs = commitOrRollback_def prepare_def migrate_def transaction_def query_def
  pool_query_def current_def store_def ensure_def dirNames_of_def startsWith_def subset_of_def
  slice_from_def slice_def newCursor_def at_index_def migrationDirPaths_def resolve_def
  read_sql_def migration_file_def concat_sql_def create_files_def reason_def
  migrations_dir_def log_server_def own_commit_def session_at_def pick_def cursor_of_def

lemma prepare_dirNames:
  assumes "prepare fs srv p s0 = Inr (dirNames, cursor, s)" and "readdir fs p = Inr entries"
  shows "dirNames = dirNames_of entries"
  using assms by (auto simp: prepare_def split: sum.splits)


lemma query_BEGIN:
  "fault srv BEGIN = None \<Longrightarrow> query srv BEGIN s = Rows [] (s\<lparr>txn := Some (current s)\<rparr>)"
  by (simp add: query_def)

lemma query_ROLLBACK:
  "query srv ROLLBACK s =
     (case fault srv ROLLBACK of Some e \<Rightarrow> Lost e | None \<Rightarrow> Rows [] (s\<lparr>txn := None\<rparr>))"
  by (simp add: query_def split: option.splits)

lemma query_ROLLBACK_not_Rejected: "query srv ROLLBACK s \<noteq> Rejected e s'"
  by (simp add: query_ROLLBACK split: option.splits)

lemma transaction_starts:
  assumes "fault srv BEGIN = None"
  shows "take 2 (issued (transaction srv sql n s)) = [BEGIN, SCRIPT sql]"
  using assms
  by (simp add: transaction_def query_BEGIN split: reply.splits prod.splits stop.splits)

lemma transaction_not_Released: "ended (transaction srv sql n s) \<noteq> Released"
  by (simp add: transaction_def query_ROLLBACK split: reply.splits prod.splits stop.splits option.splits)

lemma commitOrRollback_transaction:
  assumes "prepare fs srv p s0 = Inr (dirNames, cursor, s)"
    and "\<not> array_lessThan_1 (subset_of (cmd args) dirNames cursor)"
    and "(if all args then Inr (length (subset_of (cmd args) dirNames cursor) - 1)
          else spawnSelection (subset_of (cmd args) dirNames cursor)) = Inr migrateTo"
    and "read_sql fs (cmd args)
           (migrationDirPaths p (subset_of (cmd args) dirNames cursor) migrateTo) = Inr sql"
    and "connect srv = None"
  shows "commitOrRollback args fs spawnSelection srv p s0 =
         transaction srv sql
           (newCursor (cmd args) dirNames (subset_of (cmd args) dirNames cursor) migrateTo) s"
  using assms by (simp add: commitOrRollback_def migrate_def Let_def)

lemma empty_subset_no_op:
  assumes "prepare fs srv p s0 = Inr (dirNames, cursor, s)"
    and "subset_of (cmd args) dirNames cursor = []"
  shows "commitOrRollback args fs spawnSelection srv p s0 =
         \<lparr>ended = CannotPerform (cmd args) (reason (cmd args)), db_after = persisted s,
          issued = [], printed = []\<rparr>"
  using assms by (simp add: commitOrRollback_def migrate_def no_op_test)

lemma created_names_no_op_iff_empty:
  assumes "\<forall>d\<in>set subs. CHR ''_'' \<in> set d"
  shows "array_lessThan_1 subs \<longleftrightarrow> subs = []"
proof -
  have "\<not> numeric_char CHR ''_''" by (simp add: numeric_char_def isStrWhiteSpaceChar_def)
  then have "StringToNumber d = NaN" if "CHR ''_'' \<in> set d" for d
    using that StringToNumber_numeric by blast
  then show ?thesis using assms by (auto simp: no_op_test lessThan_1_def)
qed

lemma transaction_success:
  assumes "fault srv = (\<lambda>st. None)"
    and "script srv sql (s\<lparr>txn := Some (current s)\<rparr>) = (None, s2)"
    and "txn s2 = Some d" and "migrations d = Some rows"
  shows "transaction srv sql n s =
         \<lparr>ended = MigrationSuccessful n, db_after = d\<lparr>migrations := Some (map (\<lambda>r. n) rows)\<rparr>,
          issued = [BEGIN, SCRIPT sql, UPDATE_CURSOR n, COMMIT], printed = []\<rparr>"
  using assms by (simp add: transaction_def query_def current_def store_def)

section \<open>Offsets, the new cursor and the run\<close>

lemma stopping_offset:
  assumes "distinct C" and "- 1 \<le> k" and "k < int (length C)"
    and "s < length (subset_of c C k)"
  shows "migrationDirPaths p (subset_of c C k) s = map (resolve p) (take (Suc s) (subset_of c C k)) \<and>
         (if c = Commit
          then nat (k + 1 + int s) < length C \<and> C ! nat (k + 1 + int s) = subset_of c C k ! s \<and>
               newCursor c C (subset_of c C k) s = k + 1 + int s
          else nat (k - int s) < length C \<and> C ! nat (k - int s) = subset_of c C k ! s \<and>
               newCursor c C (subset_of c C k) s = (k - int s) - 1)"
proof (cases "c = Commit")
  case True
  then show ?thesis
    using nth_subset_Commit[of k s C] newCursor_Commit[of C k s] assms
    by (simp add: migrationDirPaths_take)
next
  case False
  then have sub: "subset_of c C k = subset_of Rollback C k" by (simp add: subset_of_def)
  show ?thesis
    using False nth_subset_Rollback[of k C s] newCursor_Rollback[of C k c s] assms
    by (simp add: migrationDirPaths_take sub)
qed

lemma round_trip:
  assumes "distinct C" and "- 1 \<le> k" and "k + 1 + int s < int (length C)"
  shows "newCursor Commit C (subset_of Commit C k) s = k + 1 + int s \<and>
         s < length (subset_of Rollback C (k + 1 + int s)) \<and>
         subset_of Rollback C (k + 1 + int s) ! s = C ! nat (k + 1) \<and>
         (\<forall>s' < length (subset_of Rollback C (k + 1 + int s)).
            subset_of Rollback C (k + 1 + int s) ! s' = C ! nat (k + 1) \<longrightarrow>
            newCursor Rollback C (subset_of Rollback C (k + 1 + int s)) s' = k)"
proof -
  let ?j = "k + 1 + int s"
  let ?rsub = "subset_of Rollback C ?j"
  have j: "- 1 \<le> ?j" "?j < int (length C)" using assms by simp_all
  have fwd_len: "s < length (subset_of Commit C k)"
    using assms by (simp add: subset_of_Commit)
  have fwd: "newCursor Commit C (subset_of Commit C k) s = ?j"
    by (rule newCursor_Commit[OF assms(1,2) fwd_len])
  have len: "length ?rsub = nat (?j + 1)" using j by (simp add: subset_of_Rollback)
  have s: "s < length ?rsub" unfolding len using assms(2) by linarith
  have at_s: "?rsub ! s = C ! nat (k + 1)"
    using nth_subset_Rollback[OF j s] by simp
  have k1: "nat (k + 1) < length C" using assms by linarith
  have restore: "newCursor Rollback C ?rsub s' = k"
    if lt: "s' < length ?rsub" and eq: "?rsub ! s' = C ! nat (k + 1)" for s'
  proof -
    from nth_subset_Rollback[OF j lt]
    have i1: "nat (?j - int s') < length C" and i2: "?rsub ! s' = C ! nat (?j - int s')"
      and i3: "0 \<le> ?j - int s'" by simp_all
    have "nat (?j - int s') = nat (k + 1)"
      using assms(1) i1 k1 i2 eq by (simp add: nth_eq_iff_index_eq)
    then have "?j - int s' = k + 1" using i3 assms(2) by linarith
    then show ?thesis
      using newCursor_Rollback[OF assms(1) j _ lt] by simp
  qed
  show ?thesis using fwd s at_s restore by blast
qed

lemma applied_and_written:
  assumes "prepare fs srv p s0 = Inr (C, k, st)"
    and "distinct C" and "- 1 \<le> k" and "k < int (length C)"
    and "\<not> array_lessThan_1 (subset_of (cmd args) C k)"
    and "(if all args then Inr (length (subset_of (cmd args) C k) - 1)
          else spawnSelection (subset_of (cmd args) C k)) = Inr s"
    and "s < length (subset_of (cmd args) C k)"
    and "read_sql fs (cmd args) (map (resolve p) (take (Suc s) (subset_of (cmd args) C k)))
           = Inr sql"
    and "connect srv = None" and "fault srv = (\<lambda>q. None)"
    and "script srv sql (st\<lparr>txn := Some (current st)\<rparr>) = (None, s2)"
    and "txn s2 = Some d" and "migrations d = Some rows"
    and "n = (if cmd args = Commit then k + 1 + int s else k - int s - 1)"
  shows "commitOrRollback args fs spawnSelection srv p s0 =
         \<lparr>ended = MigrationSuccessful n, db_after = d\<lparr>migrations := Some (map (\<lambda>r. n) rows)\<rparr>,
          issued = [BEGIN, SCRIPT sql, UPDATE_CURSOR n, COMMIT], printed = []\<rparr>"
proof -
  let ?subs = "subset_of (cmd args) C k"
  have n: "newCursor (cmd args) C ?subs s = n"
  proof (cases "cmd args = Commit")
    case True
    then show ?thesis using newCursor_Commit[of C k s] assms(2,3,7,14) by simp
  next
    case False
    then show ?thesis using newCursor_Rollback[of C k "cmd args" s] assms(2,3,4,7,14) by simp
  qed
  have "commitOrRollback args fs spawnSelection srv p s0 = transaction srv sql n st"
    using assms(1,5,6,8,9) n
    by (simp add: commitOrRollback_def migrate_def Let_def migrationDirPaths_take)
  then show ?thesis
    using transaction_success[OF assms(10-13)] by simp
qed

section \<open>Claims\<close>

text \<open>
  C1. For every catalog \<open>C\<close> and every cursor \<open>k\<close> with \<open>-1 \<le> k < len(C)\<close>, the subset
  resolved for a commit is \<open>C[k+1:]\<close>, in catalog order, and the subset resolved for a
  rollback is \<open>reverse(C[0:k+1])\<close>, the most recently applied unit first.
\<close>

theorem subset_resolution:
  assumes "- 1 \<le> k" and "k < int (length C)"
  shows "subset_of Commit C k = drop (nat (k + 1)) C \<and>
         subset_of Rollback C k = rev (take (nat (k + 1)) C)"
  using assms by (simp add: subset_of_Commit subset_of_Rollback)

theorem subset_resolution_witness:
  "- 1 \<le> (1::int) \<and> (1::int) < int (length [''a'', ''b'', ''c'', ''d'']) \<and>
   subset_of Commit [''a'', ''b'', ''c'', ''d''] 1 = [''c'', ''d''] \<and>
   subset_of Rollback [''a'', ''b'', ''c'', ''d''] 1 = [''b'', ''a'']"
  using subset_resolution [of 1 "[''a'', ''b'', ''c'', ''d'']"] by simp




text \<open>
  C3. For every catalog, cursor and stopping offset \<open>s\<close> the units \<open>Subset[0..s]\<close> are to be
  applied and the catalog index of \<open>Subset[s]\<close> written as the new cursor. With the single
  migration directory \<open>0\<close>, the cursor at \<open>-1\<close> and offset \<open>0\<close>, the subset is \<open>[0]\<close> and the
  new cursor would be \<open>0\<close>, but the run ends at the test of line 131: no query of the
  transaction is sent and the cursor stays \<open>-1\<close>. With the directory named \<open>0_a\<close> instead,
  the same run applies the unit and writes the cursor \<open>0\<close>.
\<close>

theorem selected_unit_not_applied:
  "distinct [''0''] \<and> - 1 \<le> (- 1::int) \<and> (- 1::int) < int (length [''0'']) \<and>
   subset_of Commit [''0''] (- 1) = [''0''] \<and> (0::nat) < length (subset_of Commit [''0''] (- 1)) \<and>
   newCursor Commit [''0''] (subset_of Commit [''0''] (- 1)) 0 = 0 \<and>
   commitOrRollback \<lparr>cmd = Commit, all = False\<rparr> (migrations_dir [''0'']) (pick 0) (log_server [])
     [''postgres_migrations''] (session_at (- 1))
     = \<lparr>ended = CannotPerform Commit ''the database is already fully migrated'',
        db_after = \<lparr>migrations = Some [- 1], schema = []\<rparr>, issued = [], printed = []\<rparr> \<and>
   commitOrRollback \<lparr>cmd = Commit, all = False\<rparr> (migrations_dir [''0_a'']) (pick 0) (log_server [])
     [''postgres_migrations''] (session_at (- 1))
     = \<lparr>ended = MigrationSuccessful 0,
        db_after = \<lparr>migrations = Some [0], schema = [''<0_a commit>\<newline>'']\<rparr>,
        issued = [BEGIN, SCRIPT ''<0_a commit>\<newline>'', UPDATE_CURSOR 0, COMMIT], printed = []\<rparr>"
  by (simp add: run_defs ToNumber_defs)

text \<open>
  C4. The catalog used for subset resolution and application is the listing of the
  migrations directory without the entries whose name starts with a dot, in the order of
  the listing; when the listing is in ascending order and holds each name once, the catalog
  is the sorted list of the set of those names.
\<close>

theorem catalog_order:
  assumes "prepare fs srv p s0 = Inr (dirNames, cursor, s)" and "readdir fs p = Inr entries"
  shows "dirNames = filter (\<lambda>d. \<not> startsWith d ''.'') entries \<and>
         (sorted entries \<and> distinct entries \<longrightarrow>
            dirNames = sorted_list_of_set {d \<in> set entries. \<not> startsWith d ''.''})"
proof -
  have d: "dirNames = filter (\<lambda>d. \<not> startsWith d ''.'') entries"
    using prepare_dirNames[OF assms] by (simp add: dirNames_of_def)
  have "dirNames = sorted_list_of_set {d \<in> set entries. \<not> startsWith d ''.''}"
    if "sorted entries" "distinct entries"
  proof (rule sorted_distinct_set_unique)
    show "sorted dirNames" using that d by (simp add: sorted_filter[where f = "\<lambda>x. x", simplified])
    show "distinct dirNames" using that d by simp
    show "sorted (sorted_list_of_set {d \<in> set entries. \<not> startsWith d ''.''})" by simp
    show "distinct (sorted_list_of_set {d \<in> set entries. \<not> startsWith d ''.''})" by simp
    show "set dirNames = set (sorted_list_of_set {d \<in> set entries. \<not> startsWith d ''.''})"
      using d by auto
  qed
  with d show ?thesis by blast
qed

theorem catalog_order_witness:
  "prepare (migrations_dir [''.git'', ''1_a'', ''2_b'']) (log_server []) [''postgres_migrations'']
      (session_at 0) = Inr ([''1_a'', ''2_b''], 0, session_at 0) \<and>
   readdir (migrations_dir [''.git'', ''1_a'', ''2_b'']) [''postgres_migrations'']
      = Inr [''.git'', ''1_a'', ''2_b''] \<and>
   sorted [''.git'', ''1_a'', ''2_b''] \<and> distinct [''.git'', ''1_a'', ''2_b''] \<and>
   [''1_a'', ''2_b''] = sorted_list_of_set {d \<in> set [''.git'', ''1_a'', ''2_b'']. \<not> startsWith d ''.''}"
proof -
  have p: "prepare (migrations_dir [''.git'', ''1_a'', ''2_b'']) (log_server []) [''postgres_migrations'']
      (session_at 0) = Inr ([''1_a'', ''2_b''], 0, session_at 0)"
    by (simp add: run_defs)
  have r: "readdir (migrations_dir [''.git'', ''1_a'', ''2_b'']) [''postgres_migrations'']
      = Inr [''.git'', ''1_a'', ''2_b'']"
    by (simp add: migrations_dir_def)
  have s: "sorted [''.git'', ''1_a'', ''2_b'']" by simp
  have d: "distinct [''.git'', ''1_a'', ''2_b'']" by simp
  from catalog_order[OF p r] s d
  have "[''1_a'', ''2_b''] = sorted_list_of_set {d \<in> set [''.git'', ''1_a'', ''2_b'']. \<not> startsWith d ''.''}"
    by blast
  with p r s d show ?thesis by blast
qed

theorem catalog_order_counterexample:
  "prepare (migrations_dir [''a_first'', ''B_second'']) (log_server []) [''postgres_migrations'']
      (session_at 0) = Inr ([''a_first'', ''B_second''], 0, session_at 0) \<and>
   \<not> sorted [''a_first'', ''B_second'']"
  by (simp add: run_defs)

text \<open>
  C5. An operation on a non-empty subset is never to be reported as already fully migrated
  or already clean. With the single migration directory \<open>0\<close> and the cursor at \<open>-1\<close>, the
  commit subset is \<open>[0]\<close>, and the run reports that the database is already fully migrated
  and sends no query of the transaction.
\<close>

theorem noop_on_unapplied_migration:
  "subset_of Commit [''0''] (- 1) = [''0''] \<and>
   commitOrRollback \<lparr>cmd = Commit, all = True\<rparr> (migrations_dir [''0'']) (pick 0) (log_server [])
     [''postgres_migrations''] (session_at (- 1))
     = \<lparr>ended = CannotPerform Commit ''the database is already fully migrated'',
        db_after = \<lparr>migrations = Some [- 1], schema = []\<rparr>, issued = [], printed = []\<rparr>"
  by (simp add: run_defs ToNumber_defs)

text \<open>
  C6. In a run that reaches the transaction, the SQL text sent after \<open>BEGIN\<close> is the
  concatenation, in subset order, of the text of the script of each of the units
  \<open>Subset[0..migrateTo]\<close>, each followed by a newline, the last one too; the script of a unit
  is the first entry of its directory listing for a commit and the second for a rollback.
  With the catalog \<open>[A, B, C, D]\<close>, the cursor \<open>-1\<close> and a commit to offset \<open>1\<close>, the text is
  \<open><A commit>\n<B commit>\n\<close> and the new cursor is \<open>1\<close>.
\<close>

theorem sql_text:
  assumes "prepare fs srv p s0 = Inr (dirNames, cursor, s)"
    and "\<not> array_lessThan_1 (subset_of (cmd args) dirNames cursor)"
    and "(if all args then Inr (length (subset_of (cmd args) dirNames cursor) - 1)
          else spawnSelection (subset_of (cmd args) dirNames cursor)) = Inr migrateTo"
    and "read_sql fs (cmd args)
           (migrationDirPaths p (subset_of (cmd args) dirNames cursor) migrateTo) = Inr sql"
    and "connect srv = None" and "fault srv BEGIN = None"
  shows "take 2 (issued (commitOrRollback args fs spawnSelection srv p s0)) = [BEGIN, SCRIPT sql] \<and>
         (\<exists>contents.
            length contents = length (take (Suc migrateTo) (subset_of (cmd args) dirNames cursor)) \<and>
            sql = concat (map (\<lambda>t. t @ ''\<newline>'') contents) \<and>
            (\<forall>i<length contents. \<exists>files fname.
               readdir fs (resolve p (subset_of (cmd args) dirNames cursor ! i)) = Inr files \<and>
               at_index files (if cmd args = Commit then 0 else 1) = Some fname \<and>
               readFile fs (resolve (resolve p (subset_of (cmd args) dirNames cursor ! i)) fname)
                 = Inr (contents ! i)))"
proof -
  let ?subs = "subset_of (cmd args) dirNames cursor"
  let ?paths = "migrationDirPaths p ?subs migrateTo"
  have run: "commitOrRollback args fs spawnSelection srv p s0 =
      transaction srv sql (newCursor (cmd args) dirNames ?subs migrateTo) s"
    using assms(1-5) by (simp add: commitOrRollback_def migrate_def Let_def)
  have paths: "?paths = map (resolve p) (take (Suc migrateTo) ?subs)"
    by (rule migrationDirPaths_take)
  from read_sql_scripts[OF assms(4)] obtain contents where
    len: "length contents = length ?paths" and
    sql: "sql = concat (map (\<lambda>t. t @ ''\<newline>'') contents)" and
    each: "\<forall>i<length ?paths. \<exists>files fname.
              readdir fs (?paths ! i) = Inr files \<and>
              at_index files (if cmd args = Commit then 0 else 1) = Some fname \<and>
              readFile fs (resolve (?paths ! i) fname) = Inr (contents ! i)"
    by blast
  have len': "length contents = length (take (Suc migrateTo) ?subs)"
    using len paths by simp
  have nth: "?paths ! i = resolve p (?subs ! i)" if "i < length contents" for i
    using that len' unfolding paths by simp
  have each': "\<forall>i<length contents. \<exists>files fname.
               readdir fs (resolve p (?subs ! i)) = Inr files \<and>
               at_index files (if cmd args = Commit then 0 else 1) = Some fname \<and>
               readFile fs (resolve (resolve p (?subs ! i)) fname) = Inr (contents ! i)"
    using each nth len by metis
  show ?thesis
    using transaction_starts[OF assms(6)] run len' sql each' by auto
qed

theorem sql_text_witness:
  "prepare (migrations_dir [''A'', ''B'', ''C'', ''D'']) (log_server []) [''postgres_migrations'']
      (session_at (- 1)) = Inr ([''A'', ''B'', ''C'', ''D''], - 1, session_at (- 1)) \<and>
   \<not> array_lessThan_1 (subset_of (cmd \<lparr>cmd = Commit, all = False\<rparr>) [''A'', ''B'', ''C'', ''D''] (- 1)) \<and>
   read_sql (migrations_dir [''A'', ''B'', ''C'', ''D'']) (cmd \<lparr>cmd = Commit, all = False\<rparr>)
      (migrationDirPaths [''postgres_migrations'']
         (subset_of (cmd \<lparr>cmd = Commit, all = False\<rparr>) [''A'', ''B'', ''C'', ''D''] (- 1)) 1)
      = Inr ''<A commit>\<newline><B commit>\<newline>'' \<and>
   commitOrRollback \<lparr>cmd = Commit, all = False\<rparr> (migrations_dir [''A'', ''B'', ''C'', ''D''])
      (pick 1) (log_server []) [''postgres_migrations''] (session_at (- 1))
   = \<lparr>ended = MigrationSuccessful 1,
      db_after = \<lparr>migrations = Some [1], schema = [''<A commit>\<newline><B commit>\<newline>'']\<rparr>,
      issued = [BEGIN, SCRIPT ''<A commit>\<newline><B commit>\<newline>'', UPDATE_CURSOR 1, COMMIT],
      printed = []\<rparr>"
proof -
  let ?args = "\<lparr>cmd = Commit, all = False\<rparr>"
  let ?C = "[''A'', ''B'', ''C'', ''D'']"
  have a: "prepare (migrations_dir ?C) (log_server []) [''postgres_migrations'']
      (session_at (- 1)) = Inr (?C, - 1, session_at (- 1))"
    by (simp add: run_defs)
  have b: "\<not> array_lessThan_1 (subset_of (cmd ?args) ?C (- 1))"
    by (simp add: subset_of_def slice_from_def slice_def ToNumber_defs)
  have c: "(if all ?args then Inr (length (subset_of (cmd ?args) ?C (- 1)) - 1)
          else pick 1 (subset_of (cmd ?args) ?C (- 1))) = Inr 1"
    by (simp add: pick_def)
  have d: "read_sql (migrations_dir ?C) (cmd ?args)
      (migrationDirPaths [''postgres_migrations''] (subset_of (cmd ?args) ?C (- 1)) 1)
      = Inr ''<A commit>\<newline><B commit>\<newline>''"
    by (simp add: run_defs)
  have e: "connect (log_server []) = None" by (simp add: log_server_def)
  have f: "fault (log_server []) BEGIN = None" by (simp add: log_server_def)
  have run: "commitOrRollback ?args (migrations_dir ?C)
      (pick 1) (log_server []) [''postgres_migrations''] (session_at (- 1))
   = \<lparr>ended = MigrationSuccessful 1,
      db_after = \<lparr>migrations = Some [1], schema = [''<A commit>\<newline><B commit>\<newline>'']\<rparr>,
      issued = [BEGIN, SCRIPT ''<A commit>\<newline><B commit>\<newline>'', UPDATE_CURSOR 1, COMMIT],
      printed = []\<rparr>"
    by (simp add: run_defs ToNumber_defs)
  note sql_text[of "migrations_dir ?C" "log_server []" "[''postgres_migrations'']" "session_at (- 1)"
      ?C "- 1" "session_at (- 1)" ?args "pick 1" 1 "''<A commit>\<newline><B commit>\<newline>''", OF a b c d e f]
  with a b d run show ?thesis by blast
qed

text \<open>
  C7. Round trip: a commit to offset \<open>s\<close> followed by a rollback to the unit at catalog index
  \<open>k + 1\<close> is to restore the cursor \<open>k\<close>. With the catalog \<open>[0, 1_b]\<close> and the cursor at \<open>-1\<close>,
  the commit to offset \<open>0\<close> applies unit \<open>0\<close> and writes the cursor \<open>0\<close>; the rollback that
  follows has the subset \<open>[0]\<close>, ends at the test of line 131 as already clean, and leaves
  the cursor at \<open>0\<close>.
\<close>

theorem cursor_not_restored:
  "distinct [''0'', ''1_b''] \<and>
   commitOrRollback \<lparr>cmd = Commit, all = False\<rparr> (migrations_dir [''0'', ''1_b'']) (pick 0)
     (log_server []) [''postgres_migrations''] (session_at (- 1))
     = \<lparr>ended = MigrationSuccessful 0,
        db_after = \<lparr>migrations = Some [0], schema = [''<0 commit>\<newline>'']\<rparr>,
        issued = [BEGIN, SCRIPT ''<0 commit>\<newline>'', UPDATE_CURSOR 0, COMMIT], printed = []\<rparr> \<and>
   subset_of Rollback [''0'', ''1_b''] 0 = [''0''] \<and>
   commitOrRollback \<lparr>cmd = Rollback, all = False\<rparr> (migrations_dir [''0'', ''1_b'']) (pick 0)
     (log_server []) [''postgres_migrations'']
     \<lparr>persisted = db_after (commitOrRollback \<lparr>cmd = Commit, all = False\<rparr>
          (migrations_dir [''0'', ''1_b'']) (pick 0) (log_server []) [''postgres_migrations'']
          (session_at (- 1))),
      txn = None\<rparr>
     = \<lparr>ended = CannotPerform Rollback ''the database is already clean'',
        db_after = \<lparr>migrations = Some [0], schema = [''<0 commit>\<newline>'']\<rparr>,
        issued = [], printed = []\<rparr>"
proof -
  have fwd: "commitOrRollback \<lparr>cmd = Commit, all = False\<rparr> (migrations_dir [''0'', ''1_b'']) (pick 0)
     (log_server []) [''postgres_migrations''] (session_at (- 1))
     = \<lparr>ended = MigrationSuccessful 0,
        db_after = \<lparr>migrations = Some [0], schema = [''<0 commit>\<newline>'']\<rparr>,
        issued = [BEGIN, SCRIPT ''<0 commit>\<newline>'', UPDATE_CURSOR 0, COMMIT], printed = []\<rparr>"
    by (simp add: run_defs ToNumber_defs)
  have sub: "subset_of Rollback [''0'', ''1_b''] 0 = [''0'']"
    by (simp add: subset_of_def slice_from_def slice_def)
  have bwd: "commitOrRollback \<lparr>cmd = Rollback, all = False\<rparr> (migrations_dir [''0'', ''1_b'']) (pick 0)
     (log_server []) [''postgres_migrations'']
     \<lparr>persisted = \<lparr>migrations = Some [0], schema = [''<0 commit>\<newline>'']\<rparr>, txn = None\<rparr>
     = \<lparr>ended = CannotPerform Rollback ''the database is already clean'',
        db_after = \<lparr>migrations = Some [0], schema = [''<0 commit>\<newline>'']\<rparr>,
        issued = [], printed = []\<rparr>"
    by (simp add: run_defs ToNumber_defs)
  show ?thesis unfolding fwd using sub bwd by simp
qed




text \<open>
  C9. The test on the resolved subset is the comparison \<open>subset < 1\<close> of the array with a
  number: when the subset has one element and the number that name reads as is less than
  \<open>1\<close> (a directory named \<open>0\<close>), the run ends as a no-op, with no query of the transaction
  sent and the database as it was, although the subset is not empty.
\<close>

theorem coercing_comparison:
  assumes "prepare fs srv p s0 = Inr (dirNames, cursor, s)"
    and "subset_of (cmd args) dirNames cursor = [d]"
    and "lessThan_1 (StringToNumber d)"
  shows "commitOrRollback args fs spawnSelection srv p s0 =
         \<lparr>ended = CannotPerform (cmd args) (reason (cmd args)), db_after = persisted s,
          issued = [], printed = []\<rparr>"
  using assms
  by (simp add: commitOrRollback_def migrate_def array_lessThan_1_def join_def)

theorem coercing_comparison_witness:
  "prepare (migrations_dir [''0'']) (log_server []) [''postgres_migrations''] (session_at 0)
     = Inr ([''0''], 0, session_at 0) \<and>
   subset_of (cmd \<lparr>cmd = Rollback, all = True\<rparr>) [''0''] 0 = [''0''] \<and>
   lessThan_1 (StringToNumber ''0'') \<and>
   commitOrRollback \<lparr>cmd = Rollback, all = True\<rparr> (migrations_dir [''0'']) (pick 0) (log_server [])
     [''postgres_migrations''] (session_at 0)
     = \<lparr>ended = CannotPerform Rollback ''the database is already clean'',
        db_after = \<lparr>migrations = Some [0], schema = []\<rparr>, issued = [], printed = []\<rparr>"
proof -
  have a: "prepare (migrations_dir [''0'']) (log_server []) [''postgres_migrations''] (session_at 0)
     = Inr ([''0''], 0, session_at 0)"
    by (simp add: run_defs)
  have b: "subset_of (cmd \<lparr>cmd = Rollback, all = True\<rparr>) [''0''] 0 = [''0'']"
    by (simp add: subset_of_def slice_from_def slice_def)
  have c: "lessThan_1 (StringToNumber ''0'')" by (simp add: ToNumber_defs)
  from coercing_comparison[OF a b c, of "pick 0"] a b c
  show ?thesis by (simp add: reason_def session_at_def)
qed

text \<open>
  C10. The new cursor comes from a search of the whole catalog for the first name equal to
  the selected subset entry: it is the least index holding that name (minus one for a
  rollback). When the names are pairwise distinct it is \<open>k + 1 + s\<close> for a commit and
  \<open>k - s - 1\<close> for a rollback. With a repeated name it is the index of the first occurrence,
  which can differ from the position of the selected unit: in \<open>[a, b, a]\<close> at cursor \<open>0\<close> the
  commit subset is \<open>[b, a]\<close>, offset \<open>1\<close> selects the unit at index \<open>2\<close>, and the new cursor is
  \<open>0\<close>.
\<close>

theorem newCursor_first_match:
  assumes "- 1 \<le> k" and "k < int (length C)" and "s < length (subset_of c C k)"
  shows "(\<exists>i<length C. C ! i = subset_of c C k ! s \<and> (\<forall>j<i. C ! j \<noteq> subset_of c C k ! s) \<and>
            newCursor c C (subset_of c C k) s = (if c = Commit then int i else int i - 1)) \<and>
         (distinct C \<longrightarrow>
            newCursor c C (subset_of c C k) s = (if c = Commit then k + 1 + int s else k - int s - 1)) \<and>
         (\<not> distinct [''a'', ''b'', ''a''] \<and>
          subset_of Commit [''a'', ''b'', ''a''] 0 = [''b'', ''a''] \<and>
          newCursor Commit [''a'', ''b'', ''a''] (subset_of Commit [''a'', ''b'', ''a''] 0) 1 = 0)"
proof -
  let ?x = "subset_of c C k ! s"
  have "?x \<in> set C" using subset_of_set[OF assms(1,2), of c] assms(3) nth_mem by blast
  from findIndex_least[of ?x C "\<lambda>d. Some d = Some ?x", OF this]
  obtain i where i: "i < length C" "findIndex (\<lambda>d. Some d = Some ?x) C = int i"
    "C ! i = ?x" "\<forall>j<i. C ! j \<noteq> ?x" by auto
  have nc: "newCursor c C (subset_of c C k) s = (if c = Commit then int i else int i - 1)"
    using assms(3) i(2) by (cases "c = Commit") (simp_all add: newCursor_def at_index_def)
  have first: "\<exists>i<length C. C ! i = ?x \<and> (\<forall>j<i. C ! j \<noteq> ?x) \<and>
      newCursor c C (subset_of c C k) s = (if c = Commit then int i else int i - 1)"
    using i nc by blast
  have dist: "distinct C \<longrightarrow>
      newCursor c C (subset_of c C k) s = (if c = Commit then k + 1 + int s else k - int s - 1)"
    using newCursor_Commit[of C k s] newCursor_Rollback[of C k c s] assms by auto
  have dup: "\<not> distinct [''a'', ''b'', ''a''] \<and>
      subset_of Commit [''a'', ''b'', ''a''] 0 = [''b'', ''a''] \<and>
      newCursor Commit [''a'', ''b'', ''a''] (subset_of Commit [''a'', ''b'', ''a''] 0) 1 = 0"
    by (simp add: subset_of_def slice_from_def slice_def newCursor_def at_index_def)
  show ?thesis using first dist dup by blast
qed

theorem newCursor_first_match_witness:
  "- 1 \<le> (- 1::int) \<and> (- 1::int) < int (length [''a'', ''b'', ''c'']) \<and>
   (2::nat) < length (subset_of Commit [''a'', ''b'', ''c''] (- 1)) \<and>
   distinct [''a'', ''b'', ''c''] \<and>
   newCursor Commit [''a'', ''b'', ''c''] (subset_of Commit [''a'', ''b'', ''c''] (- 1)) 2 = 2"
proof -
  have h: "(2::nat) < length (subset_of Commit [''a'', ''b'', ''c''] (- 1))"
    by (simp add: subset_of_def slice_from_def slice_def)
  show ?thesis
    using h newCursor_first_match[OF _ _ h] by simp
qed

end
